theory Spec2Isabelle
  imports Main "HOL-Library.Word"
begin

section \<open>The DMX512 receiver of src/arduino/code.c\<close>

text \<open>
  The sketch keeps its reception state in global variables and is driven by \<open>loop()\<close>,
  which polls the RS-485 serial port. The model below passes the globals around as one record
  and takes everything the sketch reads from its environment (the serial port, \<open>micros()\<close>,
  \<open>millis()\<close>) as an argument of the function that reads it. Output on \<open>Serial\<close> changes
  none of the globals and is left out. The other C file of the repository,
  src/c/dmx_receiver.c, is a connection test that prints the bytes it reads and has no
  receiver logic.

  \<open>uint8_t\<close> is an 8-bit word. \<open>unsigned long\<close> is 32 bits wide on the Arduino boards the
  sketch is written for, so time stamps are 32-bit words: subtraction wraps around and
  comparison is unsigned. \<open>dmxState\<close> and \<open>channelCount\<close> are C \<open>int\<close>s; the only arithmetic
  on them is \<open>channelCount++\<close>, executed in branches where \<open>channelCount\<close> is 0 or at most
  512, so no increment can overflow and unbounded integers are exact.
\<close>

type_synonym u8 = "8 word"
type_synonym ulong = "32 word"

definition DMX_CHANNELS :: int where
  "DMX_CHANNELS = 512"

definition DMX_START_CODE :: u8 where
  "DMX_START_CODE = 0"

text \<open>The globals of lines 15--21 and the static local \<open>lastByteTime\<close> of line 56.\<close>

record dmx_state =
  dmxData :: "u8 list"
  dmxFrameReceived :: bool
  lastFrameTime :: ulong
  dmxState :: int
  channelCount :: int
  breakStartTime :: ulong
  inBreak :: bool
  lastByteTime :: ulong

text \<open>
  A store \<open>dmxData[i] = v\<close>. C gives no meaning to a store outside the array; the model
  reports it as an error that carries the index.
\<close>

datatype error = OutOfBounds int

definition write_slot :: "u8 list \<Rightarrow> int \<Rightarrow> u8 \<Rightarrow> error + u8 list" where
  "write_slot a i v =
     (if 0 \<le> i \<and> i < int (length a) then Inr (a[nat i := v]) else Inl (OutOfBounds i))"

text \<open>
  The state when \<open>setup()\<close> is entered: the initialisers of lines 15--21 and 56; \<open>dmxData\<close>
  has static storage, which C sets to zero.
\<close>

definition power_on :: dmx_state where
  "power_on =
     \<lparr>dmxData = replicate 513 0, dmxFrameReceived = False, lastFrameTime = 0, dmxState = 0,
      channelCount = 0, breakStartTime = 0, inBreak = False, lastByteTime = 0\<rparr>"

text \<open>
  \<open>setup()\<close>, lines 23--35: the loop of lines 32--34 stores 0 to \<open>dmxData[i]\<close> for \<open>i\<close> from
  0 while \<open>i <= DMX_CHANNELS\<close>. The calls on \<open>Serial\<close> and \<open>rs485\<close> change none of the
  globals.
\<close>

function setup_loop :: "int \<Rightarrow> u8 list \<Rightarrow> error + u8 list" where
  "setup_loop i d =
     (if i \<le> DMX_CHANNELS
      then (case write_slot d i 0 of Inl e \<Rightarrow> Inl e | Inr d' \<Rightarrow> setup_loop (i + 1) d')
      else Inr d)"
  by pat_completeness auto
termination
  by (relation "measure (\<lambda>(i, d). nat (DMX_CHANNELS + 1 - i))") auto

definition setup_fn :: "dmx_state \<Rightarrow> error + dmx_state" where
  "setup_fn s =
     (case setup_loop 0 (dmxData s) of Inl e \<Rightarrow> Inl e | Inr d \<Rightarrow> Inr (s\<lparr>dmxData := d\<rparr>))"

text \<open>The state once \<open>setup()\<close> has returned (lemma \<open>setup_power_on\<close> below).\<close>

definition initial_state :: dmx_state where
  "initial_state =
     \<lparr>dmxData = replicate 513 0, dmxFrameReceived = False, lastFrameTime = 0, dmxState = 0,
      channelCount = 0, breakStartTime = 0, inBreak = False, lastByteTime = 0\<rparr>"

text \<open>The break test of line 62: \<open>currentTime - lastByteTime > 88\<close>, on unsigned longs.\<close>

definition isBreak :: "ulong \<Rightarrow> ulong \<Rightarrow> bool" where
  "isBreak currentTime lastByte = (currentTime - lastByte > 88)"

text \<open>
  \<open>receiveDMX()\<close>, lines 55--97. \<open>avail\<close> is \<open>None\<close> when \<open>rs485.available()\<close> is false and
  otherwise holds the byte that \<open>rs485.read()\<close> returns and the value of \<open>micros()\<close>;
  \<open>now_ms\<close> is what \<open>millis()\<close> returns at line 91.
\<close>

definition receiveDMX :: "dmx_state \<Rightarrow> (u8 \<times> ulong) option \<Rightarrow> ulong \<Rightarrow> error + dmx_state" where
  "receiveDMX s avail now_ms =
     (case avail of
        None \<Rightarrow> Inr s
      | Some (receivedByte, currentTime) \<Rightarrow>
          let s1 = (if isBreak currentTime (lastByteTime s)
                    then s\<lparr>dmxState := 1, channelCount := 0, inBreak := False\<rparr>
                    else s);
              s2 = s1\<lparr>lastByteTime := currentTime\<rparr>
          in
            if dmxState s2 = 1 then
              if channelCount s2 = 0 then
                if receivedByte = DMX_START_CODE then
                  (case write_slot (dmxData s2) 0 receivedByte of
                     Inl e \<Rightarrow> Inl e
                   | Inr d \<Rightarrow> Inr (s2\<lparr>dmxData := d, channelCount := channelCount s2 + 1\<rparr>))
                else Inr (s2\<lparr>dmxState := 0\<rparr>)
              else if channelCount s2 \<le> DMX_CHANNELS then
                (case write_slot (dmxData s2) (channelCount s2) receivedByte of
                   Inl e \<Rightarrow> Inl e
                 | Inr d \<Rightarrow>
                     let s3 = s2\<lparr>dmxData := d, channelCount := channelCount s2 + 1\<rparr>
                     in Inr (if channelCount s3 > DMX_CHANNELS
                             then s3\<lparr>dmxFrameReceived := True, lastFrameTime := now_ms,
                                     dmxState := 0\<rparr>
                             else s3))
              else Inr s2
            else Inr s2)"

text \<open>
  What one pass of \<open>loop()\<close> reads from its environment: the serial port with \<open>micros()\<close>,
  and the four calls of \<open>millis()\<close> at lines 91, 41, 43 and 47, each of which may return a
  different value.
\<close>

record loop_in =
  rx :: "(u8 \<times> ulong) option"
  ms_frame :: ulong
  ms_print :: ulong
  ms_stamp :: ulong
  ms_timeout :: ulong

text \<open>
  \<open>loop()\<close>, lines 37--53. \<open>printDMXData()\<close> and the message of line 49 write to \<open>Serial\<close>
  only.
\<close>

definition loop :: "dmx_state \<Rightarrow> loop_in \<Rightarrow> error + dmx_state" where
  "loop s i =
     (case receiveDMX s (rx i) (ms_frame i) of
        Inl e \<Rightarrow> Inl e
      | Inr s1 \<Rightarrow>
          let s2 = (if dmxFrameReceived s1 \<and> ms_print i - lastFrameTime s1 > 1000
                    then s1\<lparr>lastFrameTime := ms_stamp i\<rparr>
                    else s1);
              s3 = (if ms_timeout i - lastFrameTime s2 > 5000
                    then (if dmxFrameReceived s2 then s2\<lparr>dmxFrameReceived := False\<rparr> else s2)
                    else s2)
          in Inr s3)"

text \<open>\<open>getDMXChannel()\<close>, lines 132--137.\<close>

definition getDMXChannel :: "dmx_state \<Rightarrow> int \<Rightarrow> u8" where
  "getDMXChannel s channel =
     (if channel \<ge> 1 \<and> channel \<le> DMX_CHANNELS \<and> dmxFrameReceived s
      then dmxData s ! nat channel
      else 0)"

text \<open>\<open>isDMXConnected()\<close>, lines 140--142; \<open>now_ms\<close> is what \<open>millis()\<close> returns.\<close>

definition isDMXConnected :: "dmx_state \<Rightarrow> ulong \<Rightarrow> bool" where
  "isDMXConnected s now_ms = (dmxFrameReceived s \<and> now_ms - lastFrameTime s < 2000)"

text \<open>The sketch runs \<open>loop()\<close> forever; a run is the list of what the passes read.\<close>

fun run :: "dmx_state \<Rightarrow> loop_in list \<Rightarrow> error + dmx_state" where
  "run s [] = Inr s"
| "run s (i # ins) = (case loop s i of Inl e \<Rightarrow> Inl e | Inr s' \<Rightarrow> run s' ins)"

text \<open>
  \<open>receiveDMX()\<close> called once for each of a list of bytes, each with its \<open>micros()\<close> and
  \<open>millis()\<close> values; \<open>no_break l xs\<close> holds when no byte of \<open>xs\<close> is read more than 88
  microseconds after the one before it, the first one counted from \<open>l\<close>.
\<close>

fun receive_all :: "dmx_state \<Rightarrow> (u8 \<times> ulong \<times> ulong) list \<Rightarrow> error + dmx_state" where
  "receive_all s [] = Inr s"
| "receive_all s ((b, t, ms) # rest) =
     (case receiveDMX s (Some (b, t)) ms of Inl e \<Rightarrow> Inl e | Inr s' \<Rightarrow> receive_all s' rest)"

fun no_break :: "ulong \<Rightarrow> (u8 \<times> ulong \<times> ulong) list \<Rightarrow> bool" where
  "no_break l [] = True"
| "no_break l ((b, t, ms) # rest) = (\<not> isBreak t l \<and> no_break t rest)"

section \<open>Observing a run\<close>

text \<open>
  The sketch has one buffer, \<open>dmxData\<close>, which \<open>receiveDMX()\<close> fills in place and
  \<open>getDMXChannel()\<close> reads. To say what a reader sees in terms of completed frames, a run
  is observed from outside: the observer copies the buffer whenever a pass executes lines
  90--92, and remembers how far the buffer has been overwritten since.

  \<open>stores_channel s i\<close> holds when the pass that reads \<open>i\<close> in state \<open>s\<close> executes line 85
  (no break, \<open>dmxState == 1\<close>, \<open>channelCount\<close> neither 0 nor above 512), and
  \<open>frame_completes s i\<close> when it goes on to lines 90--92.
\<close>

definition stores_channel :: "dmx_state \<Rightarrow> loop_in \<Rightarrow> bool" where
  "stores_channel s i =
     (case rx i of
        None \<Rightarrow> False
      | Some (b, t) \<Rightarrow>
          \<not> isBreak t (lastByteTime s) \<and> dmxState s = 1 \<and> channelCount s \<noteq> 0 \<and>
          channelCount s \<le> DMX_CHANNELS)"

definition frame_completes :: "dmx_state \<Rightarrow> loop_in \<Rightarrow> bool" where
  "frame_completes s i = (stores_channel s i \<and> channelCount s + 1 > DMX_CHANNELS)"

text \<open>
  \<open>published\<close> is the copy of the buffer taken at the last completion (all zero before the
  first one), \<open>completed\<close> counts the completions and \<open>completed_at\<close> is the \<open>millis()\<close>
  value of line 91 at the last one. No channel slot with an index of at least \<open>dirty\<close> has
  been stored to by line 85 since the last completion.
\<close>

record ghost =
  published :: "u8 list"
  dirty :: nat
  completed :: nat
  completed_at :: ulong

definition initial_ghost :: ghost where
  "initial_ghost = \<lparr>published = replicate 513 0, dirty = 0, completed = 0, completed_at = 0\<rparr>"

definition observe :: "dmx_state \<Rightarrow> loop_in \<Rightarrow> dmx_state \<Rightarrow> ghost \<Rightarrow> ghost" where
  "observe s i s' g =
     (if frame_completes s i
      then \<lparr>published = dmxData s', dirty = 0, completed = completed g + 1,
            completed_at = ms_frame i\<rparr>
      else if stores_channel s i
      then g\<lparr>dirty := max (dirty g) (nat (channelCount s) + 1)\<rparr>
      else g)"

fun monitor :: "dmx_state \<Rightarrow> ghost \<Rightarrow> loop_in list \<Rightarrow> ghost" where
  "monitor s g [] = g"
| "monitor s g (i # ins) =
     (case loop s i of Inl e \<Rightarrow> g | Inr s' \<Rightarrow> monitor s' (observe s i s' g) ins)"

section \<open>Inputs\<close>

text \<open>
  Builders for concrete runs. \<open>timed b t\<close> is a pass that finds byte \<open>b\<close> on the port at
  \<open>micros() = t\<close>, with \<open>millis()\<close> showing the same instant at each of its calls.
  \<open>idle_at m\<close> is a pass that finds the port empty at \<open>millis() = m\<close>.
  \<open>frame t bs\<close> is a start code read at \<open>t\<close> followed by the channel bytes \<open>bs\<close>, one
  every 44 microseconds (the duration of a byte at 250000 baud).
\<close>

definition timed :: "u8 \<Rightarrow> ulong \<Rightarrow> loop_in" where
  "timed b t =
     \<lparr>rx = Some (b, t), ms_frame = t div 1000, ms_print = t div 1000, ms_stamp = t div 1000,
      ms_timeout = t div 1000\<rparr>"

definition idle_at :: "ulong \<Rightarrow> loop_in" where
  "idle_at m = \<lparr>rx = None, ms_frame = m, ms_print = m, ms_stamp = m, ms_timeout = m\<rparr>"

fun channel_bytes :: "ulong \<Rightarrow> u8 list \<Rightarrow> loop_in list" where
  "channel_bytes t [] = []"
| "channel_bytes t (b # bs) = timed b (t + 44) # channel_bytes (t + 44) bs"

definition frame :: "ulong \<Rightarrow> u8 list \<Rightarrow> loop_in list" where
  "frame t bs = timed 0 t # channel_bytes t bs"

section \<open>Invariants\<close>

text \<open>
  \<open>state_inv\<close> holds of every state a run reaches: the buffer keeps its 513 slots, slot 0
  stays zero, the cursor stays within 0..513, and the cursor is 1..512 while receiving and
  0 or 513 while waiting for a break.
\<close>

definition state_inv :: "dmx_state \<Rightarrow> bool" where
  "state_inv s =
     (length (dmxData s) = 513 \<and> dmxData s ! 0 = 0 \<and>
      0 \<le> channelCount s \<and> channelCount s \<le> 513 \<and>
      (dmxState s = 0 \<or> dmxState s = 1) \<and>
      (dmxState s = 1 \<longrightarrow> 1 \<le> channelCount s \<and> channelCount s \<le> 512) \<and>
      (dmxState s = 0 \<longrightarrow> channelCount s = 0 \<or> channelCount s = 513))"

text \<open>
  \<open>ghost_inv\<close> ties the observer to the state: the copy has 513 slots, every slot from
  \<open>dirty\<close> on still holds what the copy holds, \<open>dmxFrameReceived\<close> is set only after a
  completion, and nothing has been stored since the last completion while the cursor is 513.
\<close>

definition ghost_inv :: "dmx_state \<Rightarrow> ghost \<Rightarrow> bool" where
  "ghost_inv s g =
     (length (published g) = 513 \<and>
      (\<forall>n. dirty g \<le> n \<and> n < 513 \<longrightarrow> dmxData s ! n = published g ! n) \<and>
      (dmxFrameReceived s \<longrightarrow> 0 < completed g) \<and>
      (channelCount s = 513 \<longrightarrow> dirty g = 0))"

lemma setup_loop_zeroes:
  assumes "0 \<le> i" "i \<le> 513" "length d = 513"
  shows "setup_loop i d = Inr (take (nat i) d @ replicate (513 - nat i) 0)"
  using assms
proof (induction i d rule: setup_loop.induct)
  case (1 i d)
  show ?case
  proof (cases "i \<le> 512")
    case True
    with "1.prems" have w: "write_slot d i 0 = Inr (d[nat i := 0])"
      by (simp add: write_slot_def)
    from True "1.prems" have n: "nat i < 513" "nat (i + 1) = Suc (nat i)" by simp_all
    have "setup_loop (i + 1) (d[nat i := 0]) =
        Inr (take (nat (i + 1)) (d[nat i := 0]) @ replicate (513 - nat (i + 1)) 0)"
      using True "1.prems" w by (intro "1.IH") (simp_all add: DMX_CHANNELS_def)
    also have "take (nat (i + 1)) (d[nat i := 0]) = take (nat i) d @ [0]"
      using n "1.prems"(3) by (simp add: take_Suc_conv_app_nth)
    also have "(take (nat i) d @ [0]) @ replicate (513 - nat (i + 1)) 0 =
        take (nat i) d @ replicate (513 - nat i) 0"
      using n by (simp add: Suc_diff_Suc replicate_Suc [symmetric] del: replicate_Suc)
    finally show ?thesis
      using True w by (subst setup_loop.simps) (simp add: DMX_CHANNELS_def)
  next
    case False
    with "1.prems" have "i = 513" by simp
    with "1.prems" show ?thesis
      by (subst setup_loop.simps) (simp add: DMX_CHANNELS_def)
  qed
qed

lemma setup_zeroes:
  assumes "length (dmxData s) = 513"
  shows "setup_fn s = Inr (s\<lparr>dmxData := replicate 513 0\<rparr>)"
  using setup_loop_zeroes [of 0 "dmxData s"] assms by (simp add: setup_fn_def)

lemma setup_power_on: "setup_fn power_on = Inr initial_state"
proof -
  have "length (dmxData power_on) = 513" by (simp add: power_on_def)
  from setup_zeroes [OF this] show ?thesis
    by (simp add: power_on_def initial_state_def)
qed

lemma state_inv_initial: "state_inv initial_state"
  by (simp add: state_inv_def initial_state_def)

lemma receiveDMX_inv:
  fixes avail :: "(u8 \<times> ulong) option"
  assumes "state_inv s"
  shows "\<exists>s'. receiveDMX s avail now_ms = Inr s' \<and> state_inv s'"
proof (cases avail)
  case None
  with assms show ?thesis by (simp add: receiveDMX_def)
next
  case (Some p)
  obtain b t where p: "p = (b, t)" by (cases p)
  from assms have len: "length (dmxData s) = 513" and z: "dmxData s ! 0 = 0"
    and c: "0 \<le> channelCount s" "channelCount s \<le> 513"
    and st: "dmxState s = 0 \<or> dmxState s = 1"
    and r: "dmxState s = 1 \<longrightarrow> 1 \<le> channelCount s \<and> channelCount s \<le> 512"
    and i: "dmxState s = 0 \<longrightarrow> channelCount s = 0 \<or> channelCount s = 513"
    by (simp_all add: state_inv_def)
  show ?thesis
  proof (cases "isBreak t (lastByteTime s)")
    case True
    with Some p len z show ?thesis
      by (simp add: receiveDMX_def write_slot_def DMX_START_CODE_def DMX_CHANNELS_def
          state_inv_def Let_def)
  next
    case False
    show ?thesis
    proof (cases "dmxState s = 1")
      case True
      with r have c1: "1 \<le> channelCount s" "channelCount s \<le> 512" by simp_all
      then have n: "nat (channelCount s) \<noteq> 0" by simp
      with Some p False True c1 len z show ?thesis
        by (auto simp add: receiveDMX_def write_slot_def DMX_CHANNELS_def state_inv_def
            Let_def nth_list_update)
    next
      case F2: False
      with st i Some p False len z c show ?thesis
        by (auto simp add: receiveDMX_def state_inv_def)
    qed
  qed
qed

lemma loop_inv:
  assumes "state_inv s"
  shows "\<exists>s'. loop s i = Inr s' \<and> state_inv s'"
proof -
  from receiveDMX_inv [OF assms] obtain s1
    where s1: "receiveDMX s (rx i) (ms_frame i) = Inr s1" and inv1: "state_inv s1"
    by blast
  from inv1 show ?thesis
    by (simp add: loop_def s1 Let_def state_inv_def)
qed

lemma run_inv:
  assumes "state_inv s"
  shows "\<exists>s'. run s ins = Inr s' \<and> state_inv s'"
  using assms
proof (induction ins arbitrary: s)
  case Nil
  then show ?case by simp
next
  case (Cons i ins)
  from loop_inv [OF Cons.prems] obtain s1 where s1: "loop s i = Inr s1" and inv1: "state_inv s1"
    by blast
  from Cons.IH [OF inv1] s1 show ?case by simp
qed

section \<open>Single passes\<close>

lemma replicate_update_same: "(replicate n x)[i := x] = replicate n x"
  by (induction n arbitrary: i) (auto split: nat.split)

lemma not_isBreak_44: "\<not> isBreak (t + 44) t"
  by (simp add: isBreak_def)

lemma receive_break:
  assumes "isBreak t (lastByteTime s)" "0 < length (dmxData s)"
  shows "receiveDMX s (Some (b, t)) ms =
     Inr (if b = DMX_START_CODE
          then s\<lparr>dmxState := 1, channelCount := 1, inBreak := False, lastByteTime := t,
                 dmxData := (dmxData s)[0 := 0]\<rparr>
          else s\<lparr>dmxState := 0, channelCount := 0, inBreak := False, lastByteTime := t\<rparr>)"
  using assms by (simp add: receiveDMX_def write_slot_def DMX_START_CODE_def)

lemma receive_channel:
  assumes "\<not> isBreak t (lastByteTime s)" "dmxState s = 1" "1 \<le> channelCount s"
    "channelCount s \<le> 512" "length (dmxData s) = 513"
  shows "receiveDMX s (Some (b, t)) ms =
     Inr (if channelCount s = 512
          then s\<lparr>lastByteTime := t, dmxData := (dmxData s)[512 := b], channelCount := 513,
                 dmxFrameReceived := True, lastFrameTime := ms, dmxState := 0\<rparr>
          else s\<lparr>lastByteTime := t, dmxData := (dmxData s)[nat (channelCount s) := b],
                 channelCount := channelCount s + 1\<rparr>)"
  using assms by (simp add: receiveDMX_def write_slot_def DMX_CHANNELS_def Let_def)

lemma receive_idle:
  assumes "\<not> isBreak t (lastByteTime s)" "dmxState s \<noteq> 1"
  shows "receiveDMX s (Some (b, t)) ms = Inr (s\<lparr>lastByteTime := t\<rparr>)"
  using assms by (simp add: receiveDMX_def)

lemma loop_fields:
  assumes "receiveDMX s (rx i) (ms_frame i) = Inr s1"
  shows "\<exists>s'. loop s i = Inr s' \<and> dmxData s' = dmxData s1 \<and> dmxState s' = dmxState s1 \<and>
     channelCount s' = channelCount s1 \<and> lastByteTime s' = lastByteTime s1 \<and>
     breakStartTime s' = breakStartTime s1 \<and> inBreak s' = inBreak s1"
  by (simp add: loop_def Let_def assms)

lemma loop_timed_fresh:
  assumes "receiveDMX s (Some (b, t)) (t div 1000) = Inr s1" "lastFrameTime s1 = t div 1000"
  shows "loop s (timed b t) = Inr s1"
  using assms by (simp add: loop_def timed_def)

lemma loop_timed_channel:
  assumes "dmxState s = 1" "channelCount s = int c" "1 \<le> c" "c < 512"
    "length (dmxData s) = 513"
  shows "\<exists>s'. loop s (timed b (lastByteTime s + 44)) = Inr s' \<and>
     dmxData s' = (dmxData s)[c := b] \<and> dmxState s' = 1 \<and> channelCount s' = int (Suc c) \<and>
     lastByteTime s' = lastByteTime s + 44 \<and> breakStartTime s' = breakStartTime s \<and>
     inBreak s' = inBreak s"
proof -
  let ?i = "timed b (lastByteTime s + 44)"
  have "receiveDMX s (rx ?i) (ms_frame ?i) =
      Inr (s\<lparr>lastByteTime := lastByteTime s + 44, dmxData := (dmxData s)[c := b],
             channelCount := int c + 1\<rparr>)"
    using assms receive_channel [of "lastByteTime s + 44" s b] not_isBreak_44
    by (simp add: timed_def)
  from loop_fields [OF this] assms show ?thesis by auto
qed

lemma loop_timed_last:
  assumes "dmxState s = 1" "channelCount s = 512" "length (dmxData s) = 513"
  shows "loop s (timed b (lastByteTime s + 44)) =
     Inr (s\<lparr>lastByteTime := lastByteTime s + 44, dmxData := (dmxData s)[512 := b],
            channelCount := 513, dmxFrameReceived := True,
            lastFrameTime := (lastByteTime s + 44) div 1000, dmxState := 0\<rparr>)"
  using assms receive_channel [of "lastByteTime s + 44" s b] not_isBreak_44
  by (intro loop_timed_fresh) simp_all

lemma stores_timed:
  assumes "dmxState s = 1" "channelCount s = int c" "1 \<le> c" "c \<le> 512"
  shows "stores_channel s (timed b (lastByteTime s + 44))"
    and "frame_completes s (timed b (lastByteTime s + 44)) = (c = 512)"
  using assms not_isBreak_44
  by (auto simp add: stores_channel_def frame_completes_def timed_def DMX_CHANNELS_def)


lemma run_channel_bytes:
  assumes "dmxState s = 1" "channelCount s = int c" "1 \<le> c" "c \<le> 512"
    "c + length bs \<le> 513" "length (dmxData s) = 513" "lastByteTime s = t"
  shows "\<exists>s' d. run s (channel_bytes t bs) = Inr s' \<and>
     dmxData s' = take c (dmxData s) @ bs @ drop (c + length bs) (dmxData s) \<and>
     channelCount s' = int (c + length bs) \<and>
     dmxState s' = (if c + length bs = 513 then 0 else 1) \<and>
     lastByteTime s' = t + 44 * of_nat (length bs) \<and>
     breakStartTime s' = breakStartTime s \<and> inBreak s' = inBreak s \<and>
     (if c + length bs = 513
      then dmxFrameReceived s' \<and> lastFrameTime s' = (t + 44 * of_nat (length bs)) div 1000 \<and>
           monitor s g (channel_bytes t bs) =
             \<lparr>published = dmxData s', dirty = 0, completed = completed g + 1,
              completed_at = (t + 44 * of_nat (length bs)) div 1000\<rparr>
      else monitor s g (channel_bytes t bs) = g\<lparr>dirty := d\<rparr>)"
  using assms
proof (induction bs arbitrary: s c t g)
  case Nil
  then show ?case
    by (intro exI [of _ s] exI [of _ "dirty g"]) simp
next
  case (Cons b bs)
  let ?i = "timed b (t + 44)"
  from Cons.prems have t: "t = lastByteTime s" by simp
  show ?case
  proof (cases "c = 512")
    case True
    with Cons.prems have bs: "bs = []" by simp
    from Cons.prems True
    have l: "loop s ?i =
       Inr (s\<lparr>lastByteTime := t + 44, dmxData := (dmxData s)[512 := b],
            channelCount := 513, dmxFrameReceived := True,
            lastFrameTime := (t + 44) div 1000, dmxState := 0\<rparr>)"
      unfolding t by (intro loop_timed_last) simp_all
    from Cons.prems True have fc: "frame_completes s ?i"
      unfolding t using stores_timed(2) [of s 512 b] by simp
    have d: "(dmxData s)[512 := b] = take 512 (dmxData s) @ [b]"
      using Cons.prems(6) by (simp add: list_eq_iff_nth_eq nth_list_update nth_append)
    from l fc d True bs Cons.prems(6) show ?thesis
      by (simp add: observe_def timed_def)
  next
    case False
    with Cons.prems have c: "c < 512" by simp
    from loop_timed_channel [OF Cons.prems(1) Cons.prems(2) Cons.prems(3) c Cons.prems(6), of b]
    obtain s1 where l: "loop s ?i = Inr s1"
      and f: "dmxData s1 = (dmxData s)[c := b]" "dmxState s1 = 1"
        "channelCount s1 = int (Suc c)" "lastByteTime s1 = t + 44"
        "breakStartTime s1 = breakStartTime s" "inBreak s1 = inBreak s"
      unfolding t by blast
    from Cons.prems c have nfc: "\<not> frame_completes s ?i" and sc: "stores_channel s ?i"
      unfolding t using stores_timed [of s c b] by simp_all
    let ?g1 = "observe s ?i s1 g"
    from nfc sc have g1: "?g1 = g\<lparr>dirty := max (dirty g) (nat (channelCount s) + 1)\<rparr>"
      by (simp add: observe_def)
    have "\<exists>s' d. run s1 (channel_bytes (t + 44) bs) = Inr s' \<and>
       dmxData s' = take (Suc c) (dmxData s1) @ bs @ drop (Suc c + length bs) (dmxData s1) \<and>
       channelCount s' = int (Suc c + length bs) \<and>
       dmxState s' = (if Suc c + length bs = 513 then 0 else 1) \<and>
       lastByteTime s' = t + 44 + 44 * of_nat (length bs) \<and>
       breakStartTime s' = breakStartTime s1 \<and> inBreak s' = inBreak s1 \<and>
       (if Suc c + length bs = 513
        then dmxFrameReceived s' \<and>
             lastFrameTime s' = (t + 44 + 44 * of_nat (length bs)) div 1000 \<and>
             monitor s1 ?g1 (channel_bytes (t + 44) bs) =
               \<lparr>published = dmxData s', dirty = 0, completed = completed ?g1 + 1,
                completed_at = (t + 44 + 44 * of_nat (length bs)) div 1000\<rparr>
        else monitor s1 ?g1 (channel_bytes (t + 44) bs) = ?g1\<lparr>dirty := d\<rparr>)"
      using Cons.prems c f by (intro Cons.IH) simp_all
    then obtain s' d where r: "run s1 (channel_bytes (t + 44) bs) = Inr s'"
      and r1: "dmxData s' = take (Suc c) (dmxData s1) @ bs @ drop (Suc c + length bs) (dmxData s1)"
      and r2: "channelCount s' = int (Suc c + length bs)"
        "dmxState s' = (if Suc c + length bs = 513 then 0 else 1)"
        "lastByteTime s' = t + 44 + 44 * of_nat (length bs)"
        "breakStartTime s' = breakStartTime s1" "inBreak s' = inBreak s1"
      and r3: "if Suc c + length bs = 513
        then dmxFrameReceived s' \<and>
             lastFrameTime s' = (t + 44 + 44 * of_nat (length bs)) div 1000 \<and>
             monitor s1 ?g1 (channel_bytes (t + 44) bs) =
               \<lparr>published = dmxData s', dirty = 0, completed = completed ?g1 + 1,
                completed_at = (t + 44 + 44 * of_nat (length bs)) div 1000\<rparr>
        else monitor s1 ?g1 (channel_bytes (t + 44) bs) = ?g1\<lparr>dirty := d\<rparr>"
      by blast
    have tm: "t + 44 + 44 * of_nat (length bs) = t + 44 * of_nat (length (b # bs))"
      by (simp add: algebra_simps)
    have dd: "take (Suc c) ((dmxData s)[c := b]) @ bs @ drop (Suc c + length bs) ((dmxData s)[c := b])
       = take c (dmxData s) @ (b # bs) @ drop (c + length (b # bs)) (dmxData s)"
      using c Cons.prems(6) by (simp add: take_Suc_conv_app_nth)
    have run: "run s (channel_bytes t (b # bs)) = Inr s'"
      using l r by simp
    have mon: "monitor s g (channel_bytes t (b # bs)) = monitor s1 ?g1 (channel_bytes (t + 44) bs)"
      using l by simp
    show ?thesis
    proof (cases "Suc c + length bs = 513")
      case True
      with r3 have "dmxFrameReceived s'"
        and "lastFrameTime s' = (t + 44 + 44 * of_nat (length bs)) div 1000"
        and "monitor s1 ?g1 (channel_bytes (t + 44) bs) =
               \<lparr>published = dmxData s', dirty = 0, completed = completed ?g1 + 1,
                completed_at = (t + 44 + 44 * of_nat (length bs)) div 1000\<rparr>"
        by simp_all
      with True run mon r1 r2 f dd tm g1 show ?thesis
        by (intro exI [of _ s'] exI [of _ d]) (simp add: add.assoc)
    next
      case False
      with r3 have "monitor s1 ?g1 (channel_bytes (t + 44) bs) = ?g1\<lparr>dirty := d\<rparr>"
        by simp
      with False run mon r1 r2 f dd tm g1 show ?thesis
        by (intro exI [of _ s'] exI [of _ d]) (simp add: add.assoc)
    qed
  qed
qed

section \<open>Frames\<close>

lemma run_append:
  "run s (xs @ ys) = (case run s xs of Inl e \<Rightarrow> Inl e | Inr s' \<Rightarrow> run s' ys)"
  by (induction xs arbitrary: s) (auto split: sum.splits)

lemma monitor_append:
  "monitor s g (xs @ ys) =
     (case run s xs of Inl e \<Rightarrow> monitor s g xs | Inr s' \<Rightarrow> monitor s' (monitor s g xs) ys)"
  by (induction xs arbitrary: s g) (auto split: sum.splits)

lemma run_frame:
  assumes "isBreak t (lastByteTime s)" "length (dmxData s) = 513" "length bs = 512"
  shows "run s (frame t bs) =
       Inr \<lparr>dmxData = 0 # bs, dmxFrameReceived = True, lastFrameTime = (t + 22528) div 1000,
            dmxState = 0, channelCount = 513, breakStartTime = breakStartTime s,
            inBreak = False, lastByteTime = t + 22528\<rparr>"
    and "monitor s g (frame t bs) =
       \<lparr>published = 0 # bs, dirty = 0, completed = completed g + 1,
        completed_at = (t + 22528) div 1000\<rparr>"
proof -
  let ?i = "timed 0 t"
  have "receiveDMX s (rx ?i) (ms_frame ?i) =
      Inr (s\<lparr>dmxState := 1, channelCount := 1, inBreak := False, lastByteTime := t,
             dmxData := (dmxData s)[0 := 0]\<rparr>)"
    using assms receive_break [of t s 0] by (simp add: timed_def DMX_START_CODE_def)
  from loop_fields [OF this] obtain s1 where l: "loop s ?i = Inr s1"
    and f: "dmxData s1 = (dmxData s)[0 := 0]" "dmxState s1 = 1" "channelCount s1 = 1"
      "lastByteTime s1 = t" "breakStartTime s1 = breakStartTime s" "inBreak s1 = False"
    by auto
  have ns: "\<not> stores_channel s ?i"
    using assms(1) by (simp add: stores_channel_def timed_def)
  then have g1: "observe s ?i s1 g = g"
    by (simp add: observe_def frame_completes_def)
  have "\<exists>s' d. run s1 (channel_bytes t bs) = Inr s' \<and>
     dmxData s' = take 1 (dmxData s1) @ bs @ drop (1 + length bs) (dmxData s1) \<and>
     channelCount s' = int (1 + length bs) \<and>
     dmxState s' = (if 1 + length bs = 513 then 0 else 1) \<and>
     lastByteTime s' = t + 44 * of_nat (length bs) \<and>
     breakStartTime s' = breakStartTime s1 \<and> inBreak s' = inBreak s1 \<and>
     (if 1 + length bs = 513
      then dmxFrameReceived s' \<and> lastFrameTime s' = (t + 44 * of_nat (length bs)) div 1000 \<and>
           monitor s1 g (channel_bytes t bs) =
             \<lparr>published = dmxData s', dirty = 0, completed = completed g + 1,
              completed_at = (t + 44 * of_nat (length bs)) div 1000\<rparr>
      else monitor s1 g (channel_bytes t bs) = g\<lparr>dirty := d\<rparr>)"
    using f assms by (intro run_channel_bytes) simp_all
  then obtain s' where r: "run s1 (channel_bytes t bs) = Inr s'"
    and d: "dmxData s' = take 1 (dmxData s1) @ bs @ drop 513 (dmxData s1)"
    and c: "channelCount s' = 513" "dmxState s' = 0" "lastByteTime s' = t + 22528"
      "breakStartTime s' = breakStartTime s" "inBreak s' = False"
      "dmxFrameReceived s'" "lastFrameTime s' = (t + 22528) div 1000"
    and m: "monitor s1 g (channel_bytes t bs) =
             \<lparr>published = dmxData s', dirty = 0, completed = completed g + 1,
              completed_at = (t + 22528) div 1000\<rparr>"
    using assms(3) f by auto
  have "take 1 ((dmxData s)[0 := 0]) = [0]"
    using assms(2) by (cases "dmxData s") simp_all
  with d f assms(2) have d': "dmxData s' = 0 # bs" by simp
  from l r d' c show "run s (frame t bs) =
       Inr \<lparr>dmxData = 0 # bs, dmxFrameReceived = True, lastFrameTime = (t + 22528) div 1000,
            dmxState = 0, channelCount = 513, breakStartTime = breakStartTime s,
            inBreak = False, lastByteTime = t + 22528\<rparr>"
    by (simp add: frame_def)
  from l g1 m d' show "monitor s g (frame t bs) =
       \<lparr>published = 0 # bs, dirty = 0, completed = completed g + 1,
        completed_at = (t + 22528) div 1000\<rparr>"
    by (simp add: frame_def)
qed


lemma ghost_inv_initial: "ghost_inv initial_state initial_ghost"
  unfolding ghost_inv_def initial_state_def initial_ghost_def by simp

lemma loop_flag:
  assumes "receiveDMX s (rx i) (ms_frame i) = Inr s1"
  shows "\<exists>f l. loop s i = Inr (s1\<lparr>dmxFrameReceived := f, lastFrameTime := l\<rparr>) \<and>
     (f \<longrightarrow> dmxFrameReceived s1)"
proof -
  let ?l2 = "if dmxFrameReceived s1 \<and> ms_print i - lastFrameTime s1 > 1000
             then ms_stamp i else lastFrameTime s1"
  let ?f3 = "if ms_timeout i - ?l2 > 5000 then False else dmxFrameReceived s1"
  have "loop s i = Inr (s1\<lparr>dmxFrameReceived := ?f3, lastFrameTime := ?l2\<rparr>)"
    by (simp add: loop_def Let_def assms)
  moreover have "?f3 \<longrightarrow> dmxFrameReceived s1" by simp
  ultimately show ?thesis by blast
qed

lemma loop_ghost_inv:
  assumes inv: "state_inv s" and g: "ghost_inv s g" and l: "loop s i = Inr s'"
  shows "ghost_inv s' (observe s i s' g)"
proof -
  from inv have len: "length (dmxData s) = 513" and z: "dmxData s ! 0 = 0"
    and st: "dmxState s = 0 \<or> dmxState s = 1"
    and r: "dmxState s = 1 \<longrightarrow> 1 \<le> channelCount s \<and> channelCount s \<le> 512"
    by (simp_all add: state_inv_def)
  from g have plen: "length (published g) = 513"
    and same: "\<And>n. dirty g \<le> n \<Longrightarrow> n < 513 \<Longrightarrow> dmxData s ! n = published g ! n"
    and fl: "dmxFrameReceived s \<Longrightarrow> 0 < completed g"
    and dz: "channelCount s = 513 \<Longrightarrow> dirty g = 0"
    by (simp_all add: ghost_inv_def)
  show ?thesis
  proof (cases "rx i")
    case None
    then have "receiveDMX s (rx i) (ms_frame i) = Inr s" by (simp add: receiveDMX_def)
    from loop_flag [OF this] l obtain f l' where
      s': "s' = s\<lparr>dmxFrameReceived := f, lastFrameTime := l'\<rparr>" and f: "f \<longrightarrow> dmxFrameReceived s"
      by auto
    from None have "observe s i s' g = g"
      by (simp add: observe_def frame_completes_def stores_channel_def)
    with g s' f show ?thesis by (auto simp add: ghost_inv_def)
  next
    case (Some p)
    obtain b t where p: "p = (b, t)" by (cases p)
    show ?thesis
    proof (cases "isBreak t (lastByteTime s)")
      case True
      from True Some p have ob: "observe s i s' g = g"
        by (simp add: observe_def frame_completes_def stores_channel_def)
      have zs: "(dmxData s)[0 := 0] = dmxData s"
        using z list_update_id [of "dmxData s" 0] by simp
      from True len Some p receive_break [of t s b "ms_frame i"]
      have "receiveDMX s (rx i) (ms_frame i) =
         Inr (if b = DMX_START_CODE
          then s\<lparr>dmxState := 1, channelCount := 1, inBreak := False, lastByteTime := t,
                 dmxData := (dmxData s)[0 := 0]\<rparr>
          else s\<lparr>dmxState := 0, channelCount := 0, inBreak := False, lastByteTime := t\<rparr>)"
        by simp
      from loop_flag [OF this] l obtain f l' where
        s': "s' = (if b = DMX_START_CODE
          then s\<lparr>dmxState := 1, channelCount := 1, inBreak := False, lastByteTime := t,
                 dmxData := (dmxData s)[0 := 0]\<rparr>
          else s\<lparr>dmxState := 0, channelCount := 0, inBreak := False, lastByteTime := t\<rparr>)
             \<lparr>dmxFrameReceived := f, lastFrameTime := l'\<rparr>"
        and f: "f \<longrightarrow> dmxFrameReceived s"
        by (auto split: if_splits)
      from g s' f zs show ?thesis
        unfolding ob by (auto simp add: ghost_inv_def)
    next
      case False
      show ?thesis
      proof (cases "dmxState s = 1")
        case True
        with r have c: "1 \<le> channelCount s" "channelCount s \<le> 512" by simp_all
        from False True c Some p have sc: "stores_channel s i"
          by (simp add: stores_channel_def DMX_CHANNELS_def)
        from False True c len Some p receive_channel [of t s b "ms_frame i"]
        have rc: "receiveDMX s (rx i) (ms_frame i) =
          Inr (if channelCount s = 512
          then s\<lparr>lastByteTime := t, dmxData := (dmxData s)[512 := b], channelCount := 513,
                 dmxFrameReceived := True, lastFrameTime := ms_frame i, dmxState := 0\<rparr>
          else s\<lparr>lastByteTime := t, dmxData := (dmxData s)[nat (channelCount s) := b],
                 channelCount := channelCount s + 1\<rparr>)"
          by simp
        show ?thesis
        proof (cases "channelCount s = 512")
          case T: True
          from loop_flag [OF rc] l T obtain f l' where
            s': "s' = s\<lparr>lastByteTime := t, dmxData := (dmxData s)[512 := b],
                 channelCount := 513, dmxState := 0, dmxFrameReceived := f,
                 lastFrameTime := l'\<rparr>"
            by auto
          from sc T have "frame_completes s i"
            by (simp add: frame_completes_def DMX_CHANNELS_def)
          then have "observe s i s' g =
             \<lparr>published = dmxData s', dirty = 0, completed = completed g + 1,
              completed_at = ms_frame i\<rparr>"
            by (simp add: observe_def)
          with s' len show ?thesis by (simp add: ghost_inv_def)
        next
          case F: False
          from loop_flag [OF rc] l F obtain f l' where
            s': "s' = s\<lparr>lastByteTime := t, dmxData := (dmxData s)[nat (channelCount s) := b],
                 channelCount := channelCount s + 1, dmxFrameReceived := f,
                 lastFrameTime := l'\<rparr>"
            and f: "f \<longrightarrow> dmxFrameReceived s"
            by auto
          from sc F c have "\<not> frame_completes s i"
            by (simp add: frame_completes_def DMX_CHANNELS_def)
          with sc have ob: "observe s i s' g = g\<lparr>dirty := max (dirty g) (nat (channelCount s) + 1)\<rparr>"
            by (simp add: observe_def)
          from g s' f F c show ?thesis
            unfolding ob by (auto simp add: ghost_inv_def nth_list_update)
        qed
      next
        case F1: False
        from False F1 Some p receive_idle [of t s b "ms_frame i"]
        have "receiveDMX s (rx i) (ms_frame i) = Inr (s\<lparr>lastByteTime := t\<rparr>)" by simp
        from loop_flag [OF this] l obtain f l' where
          s': "s' = s\<lparr>lastByteTime := t, dmxFrameReceived := f, lastFrameTime := l'\<rparr>"
          and f: "f \<longrightarrow> dmxFrameReceived s"
          by auto
        from F1 Some p have "observe s i s' g = g"
          by (simp add: observe_def frame_completes_def stores_channel_def)
        with g s' f show ?thesis by (auto simp add: ghost_inv_def)
      qed
    qed
  qed
qed

lemma run_ghost_inv:
  assumes "state_inv s" "ghost_inv s g" "run s ins = Inr s'"
  shows "state_inv s' \<and> ghost_inv s' (monitor s g ins)"
  using assms
proof (induction ins arbitrary: s g)
  case Nil
  then show ?case by simp
next
  case (Cons i ins)
  from loop_inv [OF Cons.prems(1)] obtain s1 where l: "loop s i = Inr s1" and i1: "state_inv s1"
    by blast
  from loop_ghost_inv [OF Cons.prems(1) Cons.prems(2) l]
  have g1: "ghost_inv s1 (observe s i s1 g)" .
  from Cons.prems(3) l have "run s1 ins = Inr s'" by simp
  from Cons.IH [OF i1 g1 this] l show ?case by simp
qed


lemma first_frame:
  "run initial_state (frame 1000 (replicate 512 v)) =
     Inr \<lparr>dmxData = 0 # replicate 512 v, dmxFrameReceived = True, lastFrameTime = 23,
          dmxState = 0, channelCount = 513, breakStartTime = 0, inBreak = False,
          lastByteTime = 23528\<rparr>"
  "monitor initial_state initial_ghost (frame 1000 (replicate 512 v)) =
     \<lparr>published = 0 # replicate 512 v, dirty = 0, completed = 1, completed_at = 23\<rparr>"
proof -
  have b: "isBreak 1000 (lastByteTime initial_state)"
    by (simp add: isBreak_def initial_state_def)
  have l: "length (dmxData initial_state) = 513"
    by (simp add: initial_state_def)
  have n: "length (replicate 512 v) = 512" by simp
  show "run initial_state (frame 1000 (replicate 512 v)) =
     Inr \<lparr>dmxData = 0 # replicate 512 v, dmxFrameReceived = True, lastFrameTime = 23,
          dmxState = 0, channelCount = 513, breakStartTime = 0, inBreak = False,
          lastByteTime = 23528\<rparr>"
    using run_frame(1) [OF b l n] by (simp add: initial_state_def)
  show "monitor initial_state initial_ghost (frame 1000 (replicate 512 v)) =
     \<lparr>published = 0 # replicate 512 v, dirty = 0, completed = 1, completed_at = 23\<rparr>"
    using run_frame(2) [OF b l n, of initial_ghost] by (simp add: initial_ghost_def)
qed



lemma receive_all_idle:
  assumes "dmxState s \<noteq> 1" "no_break (lastByteTime s) xs"
  shows "\<exists>l. receive_all s xs = Inr (s\<lparr>lastByteTime := l\<rparr>)"
  using assms
proof (induction xs arbitrary: s)
  case Nil
  have "s = s\<lparr>lastByteTime := lastByteTime s\<rparr>" by simp
  then show ?case by (intro exI [of _ "lastByteTime s"]) simp
next
  case (Cons x xs)
  obtain b t ms where x: "x = (b, t, ms)" by (cases x)
  from Cons.prems x have nb: "\<not> isBreak t (lastByteTime s)" and rest: "no_break t xs"
    by simp_all
  from receive_idle [OF nb Cons.prems(1)]
  have r: "receiveDMX s (Some (b, t)) ms = Inr (s\<lparr>lastByteTime := t\<rparr>)" .
  from Cons.IH [of "s\<lparr>lastByteTime := t\<rparr>"] Cons.prems(1) rest
  obtain l where "receive_all (s\<lparr>lastByteTime := t\<rparr>) xs = Inr (s\<lparr>lastByteTime := l\<rparr>)"
    by auto
  with r x show ?case by (intro exI [of _ l]) simp
qed

lemma receiveDMX_cursor:
  assumes "receiveDMX s avail ms = Inr s'"
  shows "\<exists>c. (c = channelCount s \<or> c = 0) \<and>
     (channelCount s' = c \<or> (c \<le> 512 \<and> channelCount s' = c + 1))"
proof (cases avail)
  case None
  with assms show ?thesis by (auto simp add: receiveDMX_def)
next
  case (Some p)
  obtain b t where p: "p = (b, t)" by (cases p)
  show ?thesis
  proof (cases "isBreak t (lastByteTime s)")
    case True
    with assms Some p have "channelCount s' = 0 \<or> channelCount s' = 0 + 1"
      by (auto simp add: receiveDMX_def Let_def DMX_CHANNELS_def write_slot_def
          split: if_splits sum.splits)
    then show ?thesis by auto
  next
    case False
    with assms Some p
    have "channelCount s' = channelCount s \<or>
        (channelCount s \<le> 512 \<and> channelCount s' = channelCount s + 1)"
      by (auto simp add: receiveDMX_def Let_def DMX_CHANNELS_def write_slot_def
          split: if_splits sum.splits)
    then show ?thesis by auto
  qed
qed

lemma loop_cursor:
  assumes "loop s i = Inr s'"
  shows "\<exists>c. (c = channelCount s \<or> c = 0) \<and>
     (channelCount s' = c \<or> (c \<le> 512 \<and> channelCount s' = c + 1))"
proof -
  from assms obtain s1 where r: "receiveDMX s (rx i) (ms_frame i) = Inr s1"
    by (auto simp add: loop_def split: sum.splits)
  from loop_fields [OF r] assms have "channelCount s' = channelCount s1" by auto
  with receiveDMX_cursor [OF r] show ?thesis by simp
qed

lemma run_initial_inv:
  assumes "run initial_state ins = Inr s"
  shows "state_inv s" and "ghost_inv s (monitor initial_state initial_ghost ins)"
  using run_ghost_inv [OF state_inv_initial ghost_inv_initial assms] by simp_all

lemma short_run:
  "run initial_state [timed 0 1000, timed 5 1044] =
     Inr (initial_state\<lparr>dmxData := (replicate 513 0)[1 := 5], dmxState := 1, channelCount := 2,
                         lastByteTime := 1044\<rparr>)"
  by (simp add: loop_def receiveDMX_def timed_def isBreak_def write_slot_def initial_state_def
      DMX_START_CODE_def DMX_CHANNELS_def replicate_update_same)

lemma run_partial_frame:
  assumes "isBreak t (lastByteTime s)" "length (dmxData s) = 513" "length bs < 512"
  shows "\<exists>s'. run s (frame t bs) = Inr s' \<and> dmxState s' = 1 \<and>
     channelCount s' = int (1 + length bs) \<and> length (dmxData s') = 513 \<and>
     lastByteTime s' = t + 44 * of_nat (length bs)"
proof -
  let ?i = "timed 0 t"
  have "receiveDMX s (rx ?i) (ms_frame ?i) =
      Inr (s\<lparr>dmxState := 1, channelCount := 1, inBreak := False, lastByteTime := t,
             dmxData := (dmxData s)[0 := 0]\<rparr>)"
    using assms receive_break [of t s 0] by (simp add: timed_def DMX_START_CODE_def)
  from loop_fields [OF this] obtain s1 where l: "loop s ?i = Inr s1"
    and f: "dmxData s1 = (dmxData s)[0 := 0]" "dmxState s1 = 1" "channelCount s1 = 1"
      "lastByteTime s1 = t"
    by auto
  have "\<exists>s' d. run s1 (channel_bytes t bs) = Inr s' \<and>
     dmxData s' = take 1 (dmxData s1) @ bs @ drop (1 + length bs) (dmxData s1) \<and>
     channelCount s' = int (1 + length bs) \<and>
     dmxState s' = (if 1 + length bs = 513 then 0 else 1) \<and>
     lastByteTime s' = t + 44 * of_nat (length bs) \<and>
     breakStartTime s' = breakStartTime s1 \<and> inBreak s' = inBreak s1 \<and>
     (if 1 + length bs = 513
      then dmxFrameReceived s' \<and> lastFrameTime s' = (t + 44 * of_nat (length bs)) div 1000 \<and>
           monitor s1 g (channel_bytes t bs) =
             \<lparr>published = dmxData s', dirty = 0, completed = completed g + 1,
              completed_at = (t + 44 * of_nat (length bs)) div 1000\<rparr>
      else monitor s1 g (channel_bytes t bs) = g\<lparr>dirty := d\<rparr>)"
    using f assms by (intro run_channel_bytes) simp_all
  then obtain s' where r: "run s1 (channel_bytes t bs) = Inr s'"
    and d: "dmxData s' = take 1 (dmxData s1) @ bs @ drop (1 + length bs) (dmxData s1)"
    and c: "channelCount s' = int (1 + length bs)" "dmxState s' = 1"
      "lastByteTime s' = t + 44 * of_nat (length bs)"
    using assms(3) by auto
  from d f assms have "length (dmxData s') = 513" by simp
  with l r c show ?thesis by (simp add: frame_def)
qed


lemma write_slot_error:
  "write_slot a i v = Inl e \<longleftrightarrow> (i < 0 \<or> int (length a) \<le> i) \<and> e = OutOfBounds i"
  by (auto simp add: write_slot_def)

lemma out_of_bounds_unreachable_state:
  "receiveDMX (initial_state\<lparr>dmxState := 1, channelCount := - 1\<rparr>) (Some (7, 0)) 0 =
     Inl (OutOfBounds (- 1))"
  by (simp add: receiveDMX_def isBreak_def write_slot_def initial_state_def DMX_CHANNELS_def)

lemma connected_right_after_completion:
  assumes "dmxState s = 1" and "channelCount s = 512" and "length (dmxData s) = 513"
    and "\<not> isBreak t (lastByteTime s)" and "receiveDMX s (Some (b, t)) ms = Inr s'"
  shows "isDMXConnected s' now = (now - ms < 2000)"
  using receive_channel [OF assms(4) assms(1), of b ms] assms
  by (auto simp add: isDMXConnected_def)

section \<open>The claims\<close>




text \<open>
  Claim C2: \<open>isDMXConnected()\<close> returns true if and only if a frame completed within the
  last 2000 ms, and turns false 2000 ms after the last completion without new input.

  Right after the completing call of \<open>receiveDMX()\<close> this is what the function computes
  (\<open>connected_right_after_completion\<close>). But \<open>loop()\<close> also assigns \<open>lastFrameTime\<close> at line
  43, to print once a second. In the run below a frame completes at \<open>millis() = 23\<close> and the
  port then stays silent; the pass at 1500 ms moves \<open>lastFrameTime\<close> to 1500, and
  \<open>isDMXConnected()\<close> still returns true at 2600 ms, 2577 ms after the completion. The same
  assignment keeps the timeout of line 47 from clearing \<open>dmxFrameReceived\<close> in any pass that
  finds no byte and whose \<open>millis()\<close> calls agree (\<open>idle_pass\<close>).
\<close>

theorem connected_without_signal:
  "(case run initial_state
           (frame 1000 (replicate 512 1) @ [idle_at 500, idle_at 1000, idle_at 1500]) of
      Inl e \<Rightarrow> False
    | Inr s \<Rightarrow> lastFrameTime s = 1500 \<and> isDMXConnected s 2600) \<and>
   completed (monitor initial_state initial_ghost
       (frame 1000 (replicate 512 1) @ [idle_at 500, idle_at 1000, idle_at 1500])) = 1 \<and>
   completed_at (monitor initial_state initial_ghost
       (frame 1000 (replicate 512 1) @ [idle_at 500, idle_at 1000, idle_at 1500])) = 23"
  by (simp add: run_append monitor_append first_frame loop_def receiveDMX_def idle_at_def
      observe_def frame_completes_def stores_channel_def isDMXConnected_def)




text \<open>
  Claim C4 (break always wins): in every state a run reaches, a byte that arrives with a
  break leaves the receiver receiving with \<open>channelCount = 1\<close> when the byte is 0x00 and idle
  otherwise; the byte is evaluated as the start code in the same call and is not stored as
  channel data: the buffer, \<open>dmxFrameReceived\<close> and \<open>lastFrameTime\<close> are as before.
\<close>

theorem break_always_wins:
  assumes "run initial_state ins = Inr s" and "isBreak t (lastByteTime s)"
  shows "\<exists>s'. receiveDMX s (Some (b, t)) ms = Inr s' \<and>
     (if b = 0 then dmxState s' = 1 \<and> channelCount s' = 1 else dmxState s' = 0) \<and>
     dmxData s' = dmxData s \<and> dmxFrameReceived s' = dmxFrameReceived s \<and>
     lastFrameTime s' = lastFrameTime s"
proof -
  from run_initial_inv(1) [OF assms(1)]
  have len: "length (dmxData s) = 513" and z: "dmxData s ! 0 = 0"
    by (simp_all add: state_inv_def)
  have zs: "(dmxData s)[0 := 0] = dmxData s"
    using z list_update_id [of "dmxData s" 0] by simp
  from len receive_break [OF assms(2), of b ms] zs show ?thesis
    by (simp add: DMX_START_CODE_def)
qed

theorem break_always_wins_witness:
  "(case run initial_state [timed 0 1000, timed 5 1044] of
      Inl e \<Rightarrow> False
    | Inr s \<Rightarrow>
        dmxState s = 1 \<and> channelCount s = 2 \<and> isBreak 2000 (lastByteTime s) \<and>
        (case receiveDMX s (Some (0, 2000)) 2 of
           Inl e \<Rightarrow> False
         | Inr s' \<Rightarrow> dmxState s' = 1 \<and> channelCount s' = 1 \<and> dmxData s' = dmxData s) \<and>
        (case receiveDMX s (Some (85, 2000)) 2 of
           Inl e \<Rightarrow> False
         | Inr s' \<Rightarrow> dmxState s' = 0 \<and> dmxData s' = dmxData s))"
proof -
  let ?s = "initial_state\<lparr>dmxData := (replicate 513 0)[1 := 5], dmxState := 1,
      channelCount := 2, lastByteTime := 1044\<rparr>"
  have b: "isBreak 2000 (lastByteTime ?s)" by (simp add: isBreak_def)
  from break_always_wins [OF short_run b, of 0 2] break_always_wins [OF short_run b, of 85 2] b
  show ?thesis
    unfolding short_run by auto
qed

text \<open>
  Claim C5 (frame completion): when the receiver is receiving with \<open>channelCount = 512\<close> and
  a byte arrives without a break, the byte is stored in slot 512, \<open>channelCount\<close> becomes 513,
  \<open>dmxFrameReceived\<close> is set, \<open>lastFrameTime\<close> is the \<open>millis()\<close> value of line 91 and the
  receiver is idle, with no further break needed. Any bytes that follow without a break are
  ignored: the buffer, the flag, \<open>lastFrameTime\<close> and every channel value stay as the
  completion left them.
\<close>

theorem frame_completion:
  assumes "dmxState s = 1" and "channelCount s = 512" and "length (dmxData s) = 513"
    and "\<not> isBreak t (lastByteTime s)"
  shows "\<exists>s'. receiveDMX s (Some (b, t)) ms = Inr s' \<and>
     dmxData s' = (dmxData s)[512 := b] \<and> channelCount s' = 513 \<and> dmxFrameReceived s' \<and>
     lastFrameTime s' = ms \<and> dmxState s' = 0 \<and>
     (\<forall>extra. no_break t extra \<longrightarrow>
        (\<exists>s''. receive_all s' extra = Inr s'' \<and> dmxData s'' = dmxData s' \<and>
           dmxFrameReceived s'' \<and> lastFrameTime s'' = ms \<and> dmxState s'' = 0 \<and>
           channelCount s'' = 513 \<and> (\<forall>n. getDMXChannel s'' n = getDMXChannel s' n)))"
proof -
  let ?s' = "s\<lparr>lastByteTime := t, dmxData := (dmxData s)[512 := b], channelCount := 513,
                 dmxFrameReceived := True, lastFrameTime := ms, dmxState := 0\<rparr>"
  have r: "receiveDMX s (Some (b, t)) ms = Inr ?s'"
    using receive_channel [OF assms(4) assms(1), of b ms] assms by simp
  have "\<exists>s''. receive_all ?s' extra = Inr s'' \<and> dmxData s'' = dmxData ?s' \<and>
           dmxFrameReceived s'' \<and> lastFrameTime s'' = ms \<and> dmxState s'' = 0 \<and>
           channelCount s'' = 513 \<and> (\<forall>n. getDMXChannel s'' n = getDMXChannel ?s' n)"
    if "no_break t extra" for extra
  proof -
    from that receive_all_idle [of ?s' extra]
    obtain l where "receive_all ?s' extra = Inr (?s'\<lparr>lastByteTime := l\<rparr>)" by auto
    then show ?thesis by (simp add: getDMXChannel_def)
  qed
  with r show ?thesis by simp
qed

theorem frame_completion_witness:
  "(case run initial_state (frame 1000 (replicate 511 1)) of
      Inl e \<Rightarrow> False
    | Inr s \<Rightarrow>
        dmxState s = 1 \<and> channelCount s = 512 \<and> \<not> isBreak 23528 (lastByteTime s) \<and>
        (case receiveDMX s (Some (7, 23528)) 23 of
           Inl e \<Rightarrow> False
         | Inr s' \<Rightarrow>
             dmxFrameReceived s' \<and> lastFrameTime s' = 23 \<and> dmxState s' = 0 \<and>
             getDMXChannel s' 512 = 7 \<and>
             no_break 23528 [(8, 23572, 23), (9, 23616, 23)] \<and>
             (case receive_all s' [(8, 23572, 23), (9, 23616, 23)] of
                Inl e \<Rightarrow> False
              | Inr s'' \<Rightarrow> dmxData s'' = dmxData s' \<and> getDMXChannel s'' 512 = 7)))"
proof -
  have b: "isBreak 1000 (lastByteTime initial_state)"
    by (simp add: isBreak_def initial_state_def)
  have l: "length (dmxData initial_state) = 513"
    by (simp add: initial_state_def)
  from run_partial_frame [OF b l, of "replicate 511 1"] obtain s
    where run: "run initial_state (frame 1000 (replicate 511 1)) = Inr s"
      and h: "dmxState s = 1" "channelCount s = 512" "length (dmxData s) = 513"
      and lb: "lastByteTime s = 23484"
    by auto
  from lb have nbk: "\<not> isBreak 23528 (lastByteTime s)" by (simp add: isBreak_def)
  have nb: "no_break 23528 [(8, 23572, 23), (9, 23616, 23)]"
    by (simp add: isBreak_def)
  from frame_completion [OF h nbk, of 7 23] obtain s' where
    r: "receiveDMX s (Some (7, 23528)) 23 = Inr s'"
    and f: "dmxData s' = (dmxData s)[512 := 7]" "dmxFrameReceived s'" "lastFrameTime s' = 23"
      "dmxState s' = 0"
    and e: "\<forall>extra. no_break 23528 extra \<longrightarrow>
        (\<exists>s''. receive_all s' extra = Inr s'' \<and> dmxData s'' = dmxData s' \<and>
           dmxFrameReceived s'' \<and> lastFrameTime s'' = 23 \<and> dmxState s'' = 0 \<and>
           channelCount s'' = 513 \<and> (\<forall>n. getDMXChannel s'' n = getDMXChannel s' n))"
    by blast
  from e nb obtain s'' where
    r2: "receive_all s' [(8, 23572, 23), (9, 23616, 23)] = Inr s''"
    and f2: "dmxData s'' = dmxData s'" "\<forall>n. getDMXChannel s'' n = getDMXChannel s' n"
    by blast
  have g: "getDMXChannel s' 512 = 7"
    using f h by (simp add: getDMXChannel_def DMX_CHANNELS_def)
  from run h nbk r f nb r2 f2 g show ?thesis by simp
qed

text \<open>
  Claim C6 (bounded channel writes): for every input sequence, every store to the buffer
  targets an index in 0..512. In the model a store outside the buffer ends the run with
  \<open>OutOfBounds\<close> (\<open>write_slot_error\<close>), and a state that no run reaches can produce one
  (\<open>out_of_bounds_unreachable_state\<close>). \<open>setup()\<close> succeeds from the power-on state, every
  run from the state it leaves succeeds and keeps the buffer at 513 slots; in the state a
  run reaches, a pass that executes the store of line 85 finds \<open>channelCount\<close> in 1..512 (the
  other store, at line 76, has the index 0), and every further pass succeeds.
\<close>

theorem writes_in_bounds:
  "setup_fn power_on = Inr initial_state \<and>
   (\<exists>s. run initial_state ins = Inr s \<and> length (dmxData s) = 513 \<and>
     (\<forall>i. stores_channel s i \<longrightarrow> 1 \<le> channelCount s \<and> channelCount s \<le> 512) \<and>
     (\<forall>i. \<exists>s'. loop s i = Inr s'))"
proof -
  from run_inv [OF state_inv_initial] obtain s
    where r: "run initial_state ins = Inr s" and i: "state_inv s" by blast
  from i have "stores_channel s i \<longrightarrow> 1 \<le> channelCount s \<and> channelCount s \<le> 512" for i
    by (auto simp add: state_inv_def stores_channel_def split: option.splits)
  moreover from loop_inv [OF i] have "\<exists>s'. loop s i = Inr s'" for i by blast
  ultimately show ?thesis using r i setup_power_on by (auto simp add: state_inv_def)
qed

theorem writes_in_bounds_witness:
  "(case run initial_state [timed 0 1000, timed 5 1044] of
      Inl e \<Rightarrow> False
    | Inr s \<Rightarrow>
        length (dmxData s) = 513 \<and> stores_channel s (timed 6 1088) \<and> channelCount s = 2 \<and>
        1 \<le> channelCount s \<and> channelCount s \<le> 512)"
proof -
  let ?s = "initial_state\<lparr>dmxData := (replicate 513 0)[1 := 5], dmxState := 1,
      channelCount := 2, lastByteTime := 1044\<rparr>"
  have sc: "stores_channel ?s (timed 6 1088)"
    by (simp add: stores_channel_def timed_def isBreak_def DMX_CHANNELS_def)
  from writes_in_bounds [of "[timed 0 1000, timed 5 1044]"] sc show ?thesis
    unfolding short_run by auto
qed

text \<open>
  Claim C7 (invalid start code): when the byte is evaluated as a start code, because it
  arrives with a break or because the receiver is receiving with \<open>channelCount = 0\<close>, and the
  byte is not 0x00, the call leaves the receiver idle and changes neither the buffer nor
  \<open>dmxFrameReceived\<close> nor \<open>lastFrameTime\<close>; \<open>getDMXChannel(n)\<close> returns the same value for
  every \<open>n\<close> before and after.
\<close>

theorem invalid_start_code:
  assumes "isBreak t (lastByteTime s) \<or> (dmxState s = 1 \<and> channelCount s = 0)" and "b \<noteq> 0"
  shows "\<exists>s'. receiveDMX s (Some (b, t)) ms = Inr s' \<and> dmxState s' = 0 \<and>
     dmxData s' = dmxData s \<and> dmxFrameReceived s' = dmxFrameReceived s \<and>
     lastFrameTime s' = lastFrameTime s \<and> (\<forall>n. getDMXChannel s' n = getDMXChannel s n)"
  using assms
  by (auto simp add: receiveDMX_def DMX_START_CODE_def getDMXChannel_def)

theorem invalid_start_code_witness:
  "(case run initial_state (frame 1000 (replicate 512 1)) of
      Inl e \<Rightarrow> False
    | Inr s \<Rightarrow>
        isBreak 30000 (lastByteTime s) \<and> getDMXChannel s 1 = 1 \<and>
        (case receiveDMX s (Some (85, 30000)) 30 of
           Inl e \<Rightarrow> False
         | Inr s' \<Rightarrow> dmxState s' = 0 \<and> dmxData s' = dmxData s \<and> getDMXChannel s' 1 = 1))"
proof -
  let ?s = "\<lparr>dmxData = 0 # replicate 512 1, dmxFrameReceived = True, lastFrameTime = 23,
          dmxState = 0, channelCount = 513, breakStartTime = 0, inBreak = False,
          lastByteTime = 23528\<rparr>"
  have b: "isBreak 30000 (lastByteTime ?s) \<or> (dmxState ?s = 1 \<and> channelCount ?s = 0)"
    by (simp add: isBreak_def)
  have n: "(85 :: u8) \<noteq> 0" by simp
  have g: "getDMXChannel ?s 1 = 1" by (simp add: getDMXChannel_def DMX_CHANNELS_def)
  from invalid_start_code [OF b n, of 30] g show ?thesis
    unfolding first_frame by (auto simp add: isBreak_def)
qed

text \<open>
  Claim C8 (first byte): the first byte ever processed is classified as a break whatever its
  time stamp.

  The sketch has no first-call case: the gap of the first byte is measured from the initial
  \<open>lastByteTime = 0\<close>. In the counterexample below the first byte, 0x00, is read at
  \<open>micros() = 50\<close>; no break is reported and the receiver stays idle.

  What holds: the first byte is classified as a break exactly when its time stamp is above
  88; the call then starts a frame if the byte is 0x00, and otherwise only records the time
  stamp.
\<close>

theorem first_byte_break:
  "isBreak t (lastByteTime initial_state) = (88 < t) \<and>
   receiveDMX initial_state (Some (b, t)) ms =
     Inr (if 88 < t \<and> b = 0
          then initial_state\<lparr>dmxState := 1, channelCount := 1, lastByteTime := t\<rparr>
          else initial_state\<lparr>lastByteTime := t\<rparr>)"
  by (simp add: isBreak_def receiveDMX_def initial_state_def write_slot_def DMX_START_CODE_def
      replicate_update_same)

theorem first_byte_without_break:
  "\<not> isBreak 50 (lastByteTime initial_state) \<and>
   receiveDMX initial_state (Some (0, 50)) 0 = Inr (initial_state\<lparr>lastByteTime := 50\<rparr>) \<and>
   dmxState (initial_state\<lparr>lastByteTime := 50\<rparr>) = 0"
  by (simp add: isBreak_def receiveDMX_def initial_state_def)

text \<open>
  Claim C9 (start-code slot): in every state a run reaches, slot 0 of the buffer is 0x00.
  \<open>setup()\<close> leaves all 513 slots zero (\<open>setup_zeroes\<close>), the store of line 76 writes the
  start code 0x00, and the store of line 85 has an index of at least 1.
\<close>

theorem start_code_slot_zero:
  assumes "run initial_state ins = Inr s"
  shows "dmxData s ! 0 = 0"
  using run_initial_inv(1) [OF assms] by (simp add: state_inv_def)

theorem start_code_slot_zero_witness:
  "(case run initial_state [timed 0 1000, timed 5 1044] of
      Inl e \<Rightarrow> False
    | Inr s \<Rightarrow> dmxData s ! 1 = 5 \<and> dmxData s ! 0 = 0)"
  using start_code_slot_zero [OF short_run] unfolding short_run
  by (simp add: initial_state_def)

text \<open>
  Claim C10 (cursor bound): in every state a run reaches, \<open>channelCount\<close> is within 0..513.
  A pass first keeps the cursor or resets it to 0 (on a break), and then leaves that value
  or increments it, the latter only when the value is at most 512.
\<close>

theorem cursor_bound:
  assumes "run initial_state ins = Inr s"
  shows "0 \<le> channelCount s \<and> channelCount s \<le> 513 \<and>
     (\<forall>i s'. loop s i = Inr s' \<longrightarrow>
        (\<exists>c. (c = channelCount s \<or> c = 0) \<and>
             (channelCount s' = c \<or> (c \<le> 512 \<and> channelCount s' = c + 1))))"
proof -
  from run_initial_inv(1) [OF assms] have "0 \<le> channelCount s \<and> channelCount s \<le> 513"
    by (simp add: state_inv_def)
  with loop_cursor show ?thesis by blast
qed

theorem cursor_bound_witness:
  "(case run initial_state [timed 0 1000, timed 5 1044] of
      Inl e \<Rightarrow> False
    | Inr s \<Rightarrow> channelCount s = 2 \<and> 0 \<le> channelCount s \<and> channelCount s \<le> 513 \<and>
        (case loop s (timed 6 1088) of Inl e \<Rightarrow> False | Inr s' \<Rightarrow> channelCount s' = 2 + 1))"
proof -
  let ?s = "initial_state\<lparr>dmxData := (replicate 513 0)[1 := 5], dmxState := 1,
      channelCount := 2, lastByteTime := 1044\<rparr>"
  have l: "loop ?s (timed 6 1088) =
      Inr (?s\<lparr>dmxData := (replicate 513 0)[1 := 5, 2 := 6], channelCount := 3,
               lastByteTime := 1088\<rparr>)"
    by (simp add: loop_def receiveDMX_def timed_def isBreak_def write_slot_def
        initial_state_def DMX_CHANNELS_def)
  from cursor_bound [OF short_run] l show ?thesis
    unfolding short_run by simp
qed

end
